theory Spec2Isabelle
  imports Main "HOL-Library.Sublist" "HOL-Library.Multiset"
begin

section \<open>Python values used by \<^verbatim>\<open>models.py\<close>\<close>

text \<open>
  The help desk keeps users, tickets, attachments, an audit trail and notifications in a
  Django database (\<^verbatim>\<open>src/models.py\<close>). The model below follows that file: every
  model class is a record, every \<^verbatim>\<open>choices\<close> list a datatype, every table a list of
  rows in insertion order, and every exception a value \<open>Inl e\<close> of a sum type.

  A Python \<^verbatim>\<open>str\<close> is a \<open>string\<close>; one \<open>char\<close> stands for one code point, so
  \<open>length\<close> and \<open>take\<close> count what \<^verbatim>\<open>len\<close> and slicing count, for texts whose code
  points are below 256. Python integers are \<open>int\<close>.
\<close>

datatype py_error = ValueError | IndexError | IntegrityError

subsection \<open>Decimal strings: \<^verbatim>\<open>str(n)\<close>, \<^verbatim>\<open>f'{n:04d}'\<close> and \<^verbatim>\<open>int(s)\<close>\<close>

definition is_digit :: "char \<Rightarrow> bool" where
  "is_digit c = (48 \<le> (of_char c :: nat) \<and> (of_char c :: nat) \<le> 57)"

definition digit_val :: "char \<Rightarrow> nat" where
  "digit_val c = of_char c - 48"

definition digit_char :: "nat \<Rightarrow> char" where
  "digit_char d = char_of (48 + d)"

text \<open>\<^verbatim>\<open>str(n)\<close> for \<open>n \<ge> 0\<close>: the decimal digits, most significant first.\<close>

fun str_nat :: "nat \<Rightarrow> string" where
  "str_nat n = (if n < 10 then [digit_char n] else str_nat (n div 10) @ [digit_char (n mod 10)])"

definition zfill :: "nat \<Rightarrow> string \<Rightarrow> string" where
  "zfill w s = replicate (w - length s) CHR ''0'' @ s"

text \<open>
  The format specification \<^verbatim>\<open>04d\<close>: minimum width 4, filled with zeros after the sign.
  \<^verbatim>\<open>f'{7:04d}' == '0007'\<close>, \<^verbatim>\<open>f'{12345:04d}' == '12345'\<close>, \<^verbatim>\<open>f'{-5:04d}' == '-005'\<close>.
\<close>

definition format_04d :: "int \<Rightarrow> string" where
  "format_04d n =
     (if n < 0 then CHR ''-'' # zfill 3 (str_nat (nat (- n))) else zfill 4 (str_nat (nat n)))"

text \<open>
  \<^verbatim>\<open>int(s)\<close> in base 10: white space around the number is dropped, one sign is allowed,
  and single underscores may separate digits. Everything else raises \<^verbatim>\<open>ValueError\<close>.
  The white space below 256 is \<^verbatim>\<open>\t \n \v \f \r\<close>, the blank, and the code points
  \<^verbatim>\<open>0x85\<close> and \<^verbatim>\<open>0xA0\<close>.
\<close>

definition is_space :: "char \<Rightarrow> bool" where
  "is_space c = (let k = (of_char c :: nat) in (9 \<le> k \<and> k \<le> 13) \<or> k = 32 \<or> k = 133 \<or> k = 160)"

definition strip :: "string \<Rightarrow> string" where
  "strip s = rev (dropWhile is_space (rev (dropWhile is_space s)))"

fun parse_digits :: "nat \<Rightarrow> string \<Rightarrow> nat option" where
  "parse_digits acc [] = Some acc"
| "parse_digits acc [c] = (if is_digit c then Some (10 * acc + digit_val c) else None)"
| "parse_digits acc (c # d # cs) =
     (if is_digit c then parse_digits (10 * acc + digit_val c) (d # cs)
      else if c = CHR ''_'' \<and> is_digit d then parse_digits (10 * acc + digit_val d) cs
      else None)"

definition parse_unsigned :: "string \<Rightarrow> nat option" where
  "parse_unsigned s =
     (case s of [] \<Rightarrow> None
      | c # cs \<Rightarrow> if is_digit c then parse_digits (digit_val c) cs else None)"

definition py_int :: "string \<Rightarrow> py_error + int" where
  "py_int s =
     (case strip s of
        [] \<Rightarrow> Inl ValueError
      | c # cs \<Rightarrow>
          if c = CHR ''+'' then
            (case parse_unsigned cs of None \<Rightarrow> Inl ValueError | Some n \<Rightarrow> Inr (int n))
          else if c = CHR ''-'' then
            (case parse_unsigned cs of None \<Rightarrow> Inl ValueError | Some n \<Rightarrow> Inr (- int n))
          else
            (case parse_unsigned (c # cs) of None \<Rightarrow> Inl ValueError | Some n \<Rightarrow> Inr (int n)))"

subsection \<open>\<^verbatim>\<open>str.split\<close> and \<^verbatim>\<open>str.startswith\<close>\<close>

text \<open>\<^verbatim>\<open>s.split(sep)\<close> for a one-character separator; the result is never empty.\<close>

fun split :: "char \<Rightarrow> string \<Rightarrow> string list" where
  "split sep [] = [[]]"
| "split sep (c # cs) =
     (if c = sep then [] # split sep cs
      else (case split sep cs of [] \<Rightarrow> [[c]] | p # ps \<Rightarrow> (c # p) # ps))"

definition startswith :: "string \<Rightarrow> string \<Rightarrow> bool" where
  "startswith s p = prefix p s"

subsection \<open>Time\<close>

text \<open>
  A \<^verbatim>\<open>datetime\<close> is kept by the two things the code reads from it: its calendar
  \<open>year\<close> (\<^verbatim>\<open>timezone.now().year\<close>, between 1 and 9999 in Python) and its place on the
  time line in microseconds, \<open>micros\<close>, by which two values are compared
  (\<^verbatim>\<open>order_by('-created_at')\<close>).
\<close>

record datetime =
  year :: nat
  micros :: nat

subsection \<open>The secure random source\<close>

text \<open>
  \<^verbatim>\<open>secrets\<close> reads the operating system's entropy. The source is a supply of numbers
  \<open>draws\<close> and the position \<open>pos\<close> of the next one; \<^verbatim>\<open>randbelow(n)\<close> returns a number
  below \<open>n\<close>, and \<^verbatim>\<open>secrets.choice(seq)\<close> is \<^verbatim>\<open>seq[randbelow(len(seq))]\<close>, raising
  \<^verbatim>\<open>IndexError\<close> on an empty sequence.
\<close>

record rng =
  draws :: "nat \<Rightarrow> nat"
  pos :: nat

definition randbelow :: "nat \<Rightarrow> rng \<Rightarrow> nat \<times> rng" where
  "randbelow n g = (draws g (pos g) mod n, g\<lparr>pos := Suc (pos g)\<rparr>)"

definition secrets_choice :: "'a list \<Rightarrow> rng \<Rightarrow> py_error + ('a \<times> rng)" where
  "secrets_choice seq g =
     (if seq = [] then Inl IndexError
      else (let (i, g') = randbelow (length seq) g in Inr (seq ! i, g')))"

definition ascii_uppercase :: string where
  "ascii_uppercase = ''ABCDEFGHIJKLMNOPQRSTUVWXYZ''"

definition digits :: string where
  "digits = ''0123456789''"

section \<open>Identity generation\<close>

text \<open>
  \<^verbatim>\<open>''.join(secrets.choice(string.ascii_uppercase + string.digits) for _ in range(12))\<close>:
  \<open>choices k seq\<close> is the generator run \<open>k\<close> times.
\<close>

fun choices :: "nat \<Rightarrow> 'a list \<Rightarrow> rng \<Rightarrow> py_error + ('a list \<times> rng)" where
  "choices 0 seq g = Inr ([], g)"
| "choices (Suc k) seq g =
     (case secrets_choice seq g of
        Inl e \<Rightarrow> Inl e
      | Inr (c, g') \<Rightarrow>
          (case choices k seq g' of
             Inl e \<Rightarrow> Inl e
           | Inr (cs, g'') \<Rightarrow> Inr (c # cs, g'')))"

definition generate_access_code :: "rng \<Rightarrow> py_error + (string \<times> rng)" where
  "generate_access_code g = choices 12 (ascii_uppercase @ digits) g"

section \<open>The entity set\<close>

datatype role = TECNICO | USUARIO

datatype status = ABIERTO | EN_PROGRESO | RECHAZADO | CERRADO | ARCHIVADO

datatype priority = ALTA | MEDIA | BAJA

datatype category = COMPUTADORA | IMPRESORA | SOFTWARE | RED | ACCESO | OTRO

datatype action =
  CREATED | STATUS_CHANGED | VISIT_SCHEDULED | REJECTED | CLOSED | NOTE_ADDED | ARCHIVED

text \<open>
  \<open>CustomUser\<close> holds the fields the class declares and, of those inherited from
  \<^verbatim>\<open>AbstractUser\<close>, the \<open>username\<close>, which Django declares \<^verbatim>\<open>unique=True\<close>; the other
  inherited fields carry no constraint and are left out. \<open>pk\<close> is \<open>None\<close> until the
  object is first saved.
\<close>

record CustomUser =
  pk :: "nat option"
  username :: string
  role :: role
  institutional_email :: string
  access_code :: string
  code_sent_count :: int
  is_code_active :: bool

record Ticket =
  pk :: nat
  ticket_number :: string
  user :: nat
  description :: string
  category :: category
  priority :: priority
  status :: status
  affected_equipment :: string
  serial_number :: "string option"
  visit_date :: "nat option"
  visit_time :: "nat option"
  rejection_reason :: "string option"
  closure_note :: "string option"
  created_at :: datetime
  updated_at :: datetime
  closed_at :: "datetime option"

record TicketAttachment =
  pk :: nat
  ticket :: nat
  image :: string
  uploaded_at :: datetime

record TicketHistory =
  pk :: nat
  ticket :: nat
  user :: "nat option"
  action :: action
  comment :: "string option"
  timestamp :: datetime

record Notification =
  pk :: nat
  user :: nat
  ticket :: "nat option"
  title :: string
  message :: string
  is_read :: bool
  created_at :: datetime

record store =
  users :: "CustomUser list"
  tickets :: "Ticket list"
  attachments :: "TicketAttachment list"
  history :: "TicketHistory list"
  notifications :: "Notification list"

subsection \<open>Query sets\<close>

text \<open>
  \<^verbatim>\<open>order_by('-field')\<close> sorts by the field, greatest first; \<^verbatim>\<open>first()\<close> is the head of
  the result, or \<^verbatim>\<open>None\<close>. The database does not say in which order rows with equal
  keys come; here they come in the reverse of their order in the table.
\<close>

definition order_by_desc :: "('a \<Rightarrow> nat) \<Rightarrow> 'a list \<Rightarrow> 'a list" where
  "order_by_desc key rows = rev (sort_key key rows)"

definition first :: "'a list \<Rightarrow> 'a option" where
  "first rows = (case rows of [] \<Rightarrow> None | r # _ \<Rightarrow> Some r)"

text \<open>The default listings: \<^verbatim>\<open>class Meta: ordering = [...]\<close> of the three models.\<close>

definition Ticket_objects_all :: "store \<Rightarrow> Ticket list" where
  "Ticket_objects_all s = order_by_desc (\<lambda>t. micros (Ticket.created_at t)) (tickets s)"

definition TicketHistory_objects_all :: "store \<Rightarrow> TicketHistory list" where
  "TicketHistory_objects_all s = order_by_desc (\<lambda>h. micros (timestamp h)) (history s)"

definition Notification_objects_all :: "store \<Rightarrow> Notification list" where
  "Notification_objects_all s =
     order_by_desc (\<lambda>n. micros (Notification.created_at n)) (notifications s)"

subsection \<open>Ticket numbers\<close>

text \<open>\<^verbatim>\<open>f'TCK-{year}'\<close> and \<^verbatim>\<open>f'TCK-{year}-{new_num:04d}'\<close>.\<close>

definition ticket_prefix :: "nat \<Rightarrow> string" where
  "ticket_prefix y = ''TCK-'' @ str_nat y"

definition format_ticket_number :: "nat \<Rightarrow> int \<Rightarrow> string" where
  "format_ticket_number y n = ''TCK-'' @ str_nat y @ ''-'' @ format_04d n"

text \<open>\<^verbatim>\<open>int(number.split('-')[-1])\<close>: the sequence component of a ticket number.\<close>

definition sequence_of :: "string \<Rightarrow> py_error + int" where
  "sequence_of number = py_int (last (split CHR ''-'' number))"

text \<open>
  \<open>generate_ticket_number\<close> reads the ticket table and the clock. The filter is
  \<^verbatim>\<open>ticket_number__startswith\<close>, taken as Django documents it (a case-sensitive prefix
  test).
\<close>

definition generate_ticket_number :: "Ticket list \<Rightarrow> datetime \<Rightarrow> py_error + string" where
  "generate_ticket_number rows now =
     (let y = year now;
          last_ticket = first (order_by_desc (\<lambda>t. micros (Ticket.created_at t))
                          (filter (\<lambda>t. startswith (ticket_number t) (ticket_prefix y)) rows))
      in case last_ticket of
           Some t \<Rightarrow>
             (case sequence_of (ticket_number t) of
                Inl e \<Rightarrow> Inl e
              | Inr last_num \<Rightarrow> Inr (format_ticket_number y (last_num + 1)))
         | None \<Rightarrow> Inr (format_ticket_number y 1))"

subsection \<open>Creating tickets\<close>


definition fresh_pk :: "nat list \<Rightarrow> nat" where
  "fresh_pk ks = Suc (fold max ks 0)"




text \<open>\<^verbatim>\<open>Ticket.get_short_description\<close>.\<close>

definition get_short_description :: "Ticket \<Rightarrow> string" where
  "get_short_description self =
     (if length (description self) > 50 then take 50 (description self) @ ''...''
      else description self)"

section \<open>Users\<close>

text \<open>
  \<^verbatim>\<open>self.save()\<close> writes the object to the user table. \<^verbatim>\<open>access_code\<close> and
  \<^verbatim>\<open>institutional_email\<close> are declared \<^verbatim>\<open>unique=True\<close>, and so is the inherited
  \<^verbatim>\<open>username\<close>: when another row holds the same value in one of the three, the
  database refuses the write and \<^verbatim>\<open>save\<close> raises \<^verbatim>\<open>IntegrityError\<close>.
  Otherwise the row with the object's key is replaced, or the object is inserted (under
  a fresh key when it has none).
\<close>

definition stored_keys :: "CustomUser list \<Rightarrow> nat list" where
  "stored_keys rows = concat (map (\<lambda>r. case CustomUser.pk r of None \<Rightarrow> [] | Some k \<Rightarrow> [k]) rows)"

definition save_user :: "CustomUser \<Rightarrow> CustomUser list \<Rightarrow> py_error + (CustomUser \<times> CustomUser list)" where
  "save_user self rows =
     (if list_ex (\<lambda>r. CustomUser.pk r \<noteq> CustomUser.pk self
                       \<and> (access_code r = access_code self
                            \<or> institutional_email r = institutional_email self
                            \<or> username r = username self)) rows
      then Inl IntegrityError
      else (case CustomUser.pk self of
              None \<Rightarrow>
                (let u = self\<lparr>CustomUser.pk := Some (fresh_pk (stored_keys rows))\<rparr>
                 in Inr (u, rows @ [u]))
            | Some k \<Rightarrow>
                if list_ex (\<lambda>r. CustomUser.pk r = Some k) rows
                then Inr (self, map (\<lambda>r. if CustomUser.pk r = Some k then self else r) rows)
                else Inr (self, rows @ [self])))"

text \<open>
  \<open>CustomUser.regenerate_code\<close>. The result is the returned value or the exception,
  the object as the method leaves it, the user table and the random source.
\<close>

definition regenerate_code ::
  "CustomUser \<Rightarrow> CustomUser list \<Rightarrow> rng
     \<Rightarrow> (py_error + string) \<times> CustomUser \<times> CustomUser list \<times> rng" where
  "regenerate_code self rows g =
     (case generate_access_code g of
        Inl e \<Rightarrow> (Inl e, self, rows, g)
      | Inr (code, g') \<Rightarrow>
          (let self1 = self\<lparr>access_code := code\<rparr>;
               self2 = self1\<lparr>code_sent_count := 0\<rparr>;
               self3 = self2\<lparr>is_code_active := True\<rparr>
           in case save_user self3 rows of
                Inl e \<Rightarrow> (Inl e, self3, rows, g')
              | Inr (self4, rows') \<Rightarrow> (Inr (access_code self4), self4, rows', g')))"

section \<open>Deleting a user\<close>

text \<open>
  \<^verbatim>\<open>user.delete()\<close> follows the \<^verbatim>\<open>on_delete\<close> rule of every foreign key that leads to
  the user. \<^verbatim>\<open>Ticket.user\<close> and \<^verbatim>\<open>Notification.user\<close> are \<^verbatim>\<open>CASCADE\<close>: the user's
  tickets and notifications go. The \<^verbatim>\<open>ticket\<close> key of \<^verbatim>\<open>TicketAttachment\<close>,
  \<^verbatim>\<open>TicketHistory\<close> and \<^verbatim>\<open>Notification\<close> is \<^verbatim>\<open>CASCADE\<close> too: the rows of a deleted
  ticket go with it. \<^verbatim>\<open>TicketHistory.user\<close> is \<^verbatim>\<open>SET_NULL\<close>: in the history rows that
  stay, a reference to the user becomes \<^verbatim>\<open>None\<close>.
\<close>

definition owned_tickets :: "nat \<Rightarrow> store \<Rightarrow> nat list" where
  "owned_tickets uid s = map Ticket.pk (filter (\<lambda>t. Ticket.user t = uid) (tickets s))"

definition set_null :: "nat \<Rightarrow> TicketHistory \<Rightarrow> TicketHistory" where
  "set_null uid h = (if TicketHistory.user h = Some uid then h\<lparr>TicketHistory.user := None\<rparr> else h)"

definition delete_user :: "nat \<Rightarrow> store \<Rightarrow> store" where
  "delete_user uid s =
     (let dead = owned_tickets uid s in
      \<lparr> users = filter (\<lambda>u. CustomUser.pk u \<noteq> Some uid) (users s),
        tickets = filter (\<lambda>t. Ticket.user t \<noteq> uid) (tickets s),
        attachments = filter (\<lambda>a. TicketAttachment.ticket a \<notin> set dead) (attachments s),
        history = map (set_null uid)
                    (filter (\<lambda>h. TicketHistory.ticket h \<notin> set dead) (history s)),
        notifications =
          filter (\<lambda>n. Notification.user n \<noteq> uid
                       \<and> (case Notification.ticket n of None \<Rightarrow> True | Some k \<Rightarrow> k \<notin> set dead))
            (notifications s) \<rparr>)"

section \<open>The ticket life cycle\<close>

text \<open>
  \<^verbatim>\<open>models.py\<close> declares \<open>status\<close> and \<open>closed_at\<close> and their defaults; the code that
  moves a ticket from one status to the next is not part of the sources at hand.

  Modelled from the spec: the LifecycleEngine of section 4.3, which is missing from the
  sources. Each row of its table of legal transitions is one case of \<open>transition\<close>: the
  status the event is legal from, its precondition, the fields it sets, the kind of the
  history row it writes, and whether the owner is notified. The error kinds are those of
  section 7. The archive threshold is \<^verbatim>\<open>DAYS_UNTIL_ARCHIVE\<close> of \<^verbatim>\<open>settings.py\<close>.
\<close>

datatype lifecycle_error = InvalidTransition | PreconditionFailed | PermissionDenied

datatype event =
  StartWork
  | ScheduleVisit "nat option" "nat option"
  | Reject string
  | Close "string option"
  | AddNote string
  | Archive

definition DAYS_UNTIL_ARCHIVE :: int where
  "DAYS_UNTIL_ARCHIVE = 30"

definition elapsed_days :: "datetime \<Rightarrow> datetime \<Rightarrow> int" where
  "elapsed_days since now = (int (micros now) - int (micros since)) div 86400000000"

definition transition ::
  "datetime \<Rightarrow> CustomUser \<Rightarrow> event \<Rightarrow> Ticket \<Rightarrow> lifecycle_error + (Ticket \<times> action \<times> bool)" where
  "transition now actor ev t =
     (case ev of
        StartWork \<Rightarrow>
          if status t \<noteq> ABIERTO then Inl InvalidTransition
          else if role actor \<noteq> TECNICO then Inl PermissionDenied
          else Inr (t\<lparr>status := EN_PROGRESO, updated_at := now\<rparr>, STATUS_CHANGED, True)
      | ScheduleVisit d tm \<Rightarrow>
          if status t \<noteq> ABIERTO then Inl InvalidTransition
          else if d = None \<or> tm = None then Inl PreconditionFailed
          else Inr (t\<lparr>visit_date := d, visit_time := tm, updated_at := now\<rparr>,
                    VISIT_SCHEDULED, True)
      | Reject reason \<Rightarrow>
          if status t \<noteq> ABIERTO \<and> status t \<noteq> EN_PROGRESO then Inl InvalidTransition
          else if reason = [] then Inl PreconditionFailed
          else Inr (t\<lparr>status := RECHAZADO, rejection_reason := Some reason,
                      closed_at := Some now, updated_at := now\<rparr>, REJECTED, True)
      | Close note \<Rightarrow>
          if status t \<noteq> EN_PROGRESO then Inl InvalidTransition
          else if note = None then Inl PreconditionFailed
          else Inr (t\<lparr>status := CERRADO, closure_note := note,
                      closed_at := Some now, updated_at := now\<rparr>, CLOSED, True)
      | AddNote note \<Rightarrow>
          if status t \<noteq> CERRADO then Inl InvalidTransition
          else Inr (t, NOTE_ADDED, False)
      | Archive \<Rightarrow>
          if status t \<noteq> CERRADO then Inl InvalidTransition
          else (case closed_at t of
                  None \<Rightarrow> Inl PreconditionFailed
                | Some c \<Rightarrow>
                    if DAYS_UNTIL_ARCHIVE \<le> elapsed_days c now
                    then Inr (t\<lparr>status := ARCHIVADO, updated_at := now\<rparr>, ARCHIVED, False)
                    else Inl PreconditionFailed))"

text \<open>
  The ticket states that can arise: a ticket as it is first saved, with the declared
  defaults \<^verbatim>\<open>status='ABIERTO'\<close> and \<^verbatim>\<open>closed_at=None\<close>, and every state a successful
  transition leads to from there.
\<close>

inductive reachable :: "Ticket \<Rightarrow> bool" where
  created: "status t = ABIERTO \<Longrightarrow> closed_at t = None \<Longrightarrow> reachable t"
| moved: "reachable t \<Longrightarrow> transition now actor ev t = Inr (t', a, n) \<Longrightarrow> reachable t'"

section \<open>Auxiliary notions for the statements\<close>

definition is_ascii_upper :: "char \<Rightarrow> bool" where
  "is_ascii_upper c = (65 \<le> (of_char c :: nat) \<and> (of_char c :: nat) \<le> 90)"

text \<open>The number a string of decimal digits denotes, continuing from \<open>acc\<close>.\<close>

definition dec_value :: "nat \<Rightarrow> string \<Rightarrow> nat" where
  "dec_value acc s = foldl (\<lambda>a c. 10 * a + digit_val c) acc s"


subsection \<open>Example data\<close>

definition ticket_row :: "nat \<Rightarrow> string \<Rightarrow> nat \<Rightarrow> datetime \<Rightarrow> Ticket" where
  "ticket_row k number u at =
     \<lparr> Ticket.pk = k, ticket_number = number, Ticket.user = u,
       description = ''El monitor no enciende'', category = COMPUTADORA, priority = MEDIA,
       status = ABIERTO, affected_equipment = ''PC-LAB2-07'', serial_number = None,
       visit_date = None, visit_time = None, rejection_reason = None, closure_note = None,
       Ticket.created_at = at, updated_at = at, closed_at = None \<rparr>"

definition rows_2024 :: "Ticket list" where
  "rows_2024 =
     [ticket_row 1 ''TCK-2024-0001'' 1 \<lparr>year = 2024, micros = 1730797200000000\<rparr>,
      ticket_row 2 ''TCK-2024-0002'' 2 \<lparr>year = 2024, micros = 1734708600000000\<rparr>]"

definition rows_out_of_order :: "Ticket list" where
  "rows_out_of_order =
     [ticket_row 1 ''TCK-2025-0005'' 1 \<lparr>year = 2025, micros = 1740902400000000\<rparr>,
      ticket_row 2 ''TCK-2025-0002'' 2 \<lparr>year = 2025, micros = 1740988800000000\<rparr>]"

definition rows_9999 :: "Ticket list" where
  "rows_9999 = [ticket_row 9999 ''TCK-2025-9999'' 1 \<lparr>year = 2025, micros = 1740988800000000\<rparr>]"

definition march_4th :: datetime where
  "march_4th = \<lparr>year = 2025, micros = 1741075200000000\<rparr>"

definition long_report :: Ticket where
  "long_report =
     (ticket_row 3 ''TCK-2025-0003'' 1 \<lparr>year = 2025, micros = 1740988800000000\<rparr>)
       \<lparr>description := ''La impresora del laboratorio 3 no responde desde el lunes por la tarde'',
        category := IMPRESORA\<rparr>"

definition new_ticket :: Ticket where
  "new_ticket = ticket_row 10 ''TCK-2025-0001'' 1 \<lparr>year = 2025, micros = 1740816000000000\<rparr>"

definition rejected_ticket :: Ticket where
  "rejected_ticket =
     new_ticket\<lparr>status := RECHAZADO, rejection_reason := Some ''Equipo fuera de inventario'',
                closed_at := Some march_4th, updated_at := march_4th\<rparr>"

definition entropy :: rng where
  "entropy = \<lparr>draws = (\<lambda>i. 7 * i + 3), pos = 0\<rparr>"

definition ana :: CustomUser where
  "ana = \<lparr> CustomUser.pk = Some 1, username = ''ana'', role = USUARIO,
           institutional_email = ''ana@itca.edu.sv'',
           access_code = ''Q7ZP2MX9LT4A'', code_sent_count = 2, is_code_active = False \<rparr>"

definition beto :: CustomUser where
  "beto = \<lparr> CustomUser.pk = Some 2, username = ''beto'', role = TECNICO,
            institutional_email = ''beto@itca.edu.sv'',
            access_code = ''DKRY5CJQX4BI'', code_sent_count = 0, is_code_active = True \<rparr>"

definition helpdesk :: store where
  "helpdesk =
     \<lparr> users = [ana, beto],
       tickets = [new_ticket],
       attachments = [],
       history =
         [\<lparr> TicketHistory.pk = 100, TicketHistory.ticket = 10, TicketHistory.user = Some 1,
            action = CREATED, comment = None,
            timestamp = \<lparr>year = 2025, micros = 1740816000000000\<rparr> \<rparr>,
          \<lparr> TicketHistory.pk = 101, TicketHistory.ticket = 10, TicketHistory.user = Some 2,
            action = STATUS_CHANGED, comment = None,
            timestamp = \<lparr>year = 2025, micros = 1740902400000000\<rparr> \<rparr>],
       notifications = [] \<rparr>"




section \<open>Decimal strings\<close>

declare str_nat.simps [simp del]

lemma digit_char_is_digit: "d < 10 \<Longrightarrow> is_digit (digit_char d)"
  by (simp add: is_digit_def digit_char_def)

lemma digit_val_digit_char: "d < 10 \<Longrightarrow> digit_val (digit_char d) = d"
  by (simp add: digit_val_def digit_char_def)

lemma str_nat_digits: "c \<in> set (str_nat n) \<Longrightarrow> is_digit c"
proof (induction n rule: str_nat.induct)
  case (1 n)
  show ?case
  proof (cases "n < 10")
    case True
    with "1.prems" show ?thesis by (simp add: str_nat.simps[of n] digit_char_is_digit)
  next
    case False
    with "1.prems" "1.IH" show ?thesis
      by (auto simp: str_nat.simps[of n] digit_char_is_digit)
  qed
qed

lemma str_nat_not_Nil: "str_nat n \<noteq> []"
  by (subst str_nat.simps) simp

lemma dec_value_append: "dec_value acc (xs @ ys) = dec_value (dec_value acc xs) ys"
  by (simp add: dec_value_def)

lemma dec_value_str_nat: "dec_value acc (str_nat n) = acc * 10 ^ length (str_nat n) + n"
proof (induction n arbitrary: acc rule: str_nat.induct)
  case (1 n)
  show ?case
  proof (cases "n < 10")
    case True
    then show ?thesis by (simp add: str_nat.simps[of n] dec_value_def digit_val_digit_char)
  next
    case False
    have "dec_value acc (str_nat n) = 10 * dec_value acc (str_nat (n div 10)) + n mod 10"
      using False by (simp add: str_nat.simps[of n] dec_value_def digit_val_digit_char)
    also have "\<dots> = 10 * (acc * 10 ^ length (str_nat (n div 10)) + n div 10) + n mod 10"
      using "1.IH"[OF False] by simp
    also have "\<dots> = acc * 10 ^ length (str_nat n) + n"
      using False by (simp add: str_nat.simps[of n] algebra_simps)
    finally show ?thesis .
  qed
qed

lemma dec_value_str_nat0: "dec_value 0 (str_nat n) = n"
  by (simp add: dec_value_str_nat)

lemma str_nat_inj: "str_nat m = str_nat n \<Longrightarrow> m = n"
  by (metis dec_value_str_nat0)

lemma dec_value_zeros: "dec_value 0 (replicate k CHR ''0'') = 0"
  by (induction k) (simp_all add: dec_value_def digit_val_def)

lemma parse_digits_all:
  "\<forall>c \<in> set s. is_digit c \<Longrightarrow> parse_digits acc s = Some (dec_value acc s)"
  by (induction acc s rule: parse_digits.induct) (simp_all add: dec_value_def)

lemma parse_unsigned_all:
  "s \<noteq> [] \<Longrightarrow> \<forall>c \<in> set s. is_digit c \<Longrightarrow> parse_unsigned s = Some (dec_value 0 s)"
  by (cases s) (simp_all add: parse_unsigned_def parse_digits_all dec_value_def)

lemma digit_not_space: "is_digit c \<Longrightarrow> \<not> is_space c"
  by (auto simp: is_digit_def is_space_def Let_def)

lemma digit_not_sign: "is_digit c \<Longrightarrow> c \<noteq> CHR ''+'' \<and> c \<noteq> CHR ''-''"
  by (auto simp: is_digit_def)

lemma strip_digits: "\<forall>c \<in> set s. is_digit c \<Longrightarrow> strip s = s"
proof -
  assume a: "\<forall>c \<in> set s. is_digit c"
  have 1: "dropWhile is_space s = s"
    using a by (cases s) (auto simp: digit_not_space)
  have 2: "dropWhile is_space (rev s) = rev s"
    using a by (cases "rev s") (auto simp: digit_not_space dest!: arg_cong[where f=set])
  show ?thesis by (simp add: strip_def 1 2)
qed

lemma py_int_digits:
  "s \<noteq> [] \<Longrightarrow> \<forall>c \<in> set s. is_digit c \<Longrightarrow> py_int s = Inr (int (dec_value 0 s))"
  by (cases s) (auto simp: py_int_def strip_digits parse_unsigned_all digit_not_sign)

lemma zfill_digits: "\<forall>c \<in> set s. is_digit c \<Longrightarrow> \<forall>c \<in> set (zfill w s). is_digit c"
  by (auto simp: zfill_def is_digit_def)

lemma dec_value_zfill: "dec_value 0 (zfill w s) = dec_value 0 s"
  by (simp add: zfill_def dec_value_append dec_value_zeros)

lemma format_04d_nonneg: "0 \<le> n \<Longrightarrow> format_04d n = zfill 4 (str_nat (nat n))"
  by (simp add: format_04d_def)

lemma format_04d_digits: "0 \<le> n \<Longrightarrow> c \<in> set (format_04d n) \<Longrightarrow> is_digit c"
  using zfill_digits[of "str_nat (nat n)" 4] str_nat_digits by (auto simp: format_04d_nonneg)

lemma format_04d_not_Nil: "format_04d n \<noteq> []"
  by (simp add: format_04d_def zfill_def str_nat_not_Nil)

lemma py_int_format_04d: "0 \<le> n \<Longrightarrow> py_int (format_04d n) = Inr n"
proof -
  assume n: "0 \<le> n"
  have "py_int (format_04d n) = Inr (int (dec_value 0 (format_04d n)))"
    using format_04d_digits[OF n] by (intro py_int_digits format_04d_not_Nil) blast
  then show ?thesis using n by (simp add: format_04d_nonneg dec_value_zfill dec_value_str_nat0)
qed

subsection \<open>The last piece of a split\<close>

lemma split_not_Nil: "split sep s \<noteq> []"
  by (induction s) (auto split: list.splits)

lemma split_no_sep: "sep \<notin> set s \<Longrightarrow> split sep s = [s]"
  by (induction s) auto

lemma last_split_append: "last (split sep (a @ sep # b)) = last (split sep b)"
proof (induction a)
  case Nil
  then show ?case by (simp add: split_not_Nil)
next
  case (Cons c a)
  show ?case
  proof (cases "c = sep")
    case True
    then show ?thesis using Cons by (simp add: split_not_Nil)
  next
    case False
    obtain p ps where ps: "split sep (a @ sep # b) = p # ps"
      using split_not_Nil[of sep "a @ sep # b"] by (cases "split sep (a @ sep # b)") auto
    have "length (split sep (a @ sep # b)) \<ge> 2"
    proof (induction a)
      case Nil
      then show ?case using split_not_Nil[of sep b] by (cases "split sep b") auto
    next
      case (Cons x xs)
      then show ?case by (auto split: list.splits)
    qed
    then have "ps \<noteq> []" using ps by auto
    then show ?thesis using False Cons ps by simp
  qed
qed

lemma last_split_suffix: "sep \<notin> set b \<Longrightarrow> last (split sep (a @ sep # b)) = b"
  by (simp add: last_split_append split_no_sep)

lemma last_split_no_sep: "sep \<notin> set (last (split sep s))"
proof (cases "sep \<in> set s")
  case True
  then obtain ys zs where "s = ys @ sep # zs" "sep \<notin> set zs"
    using split_list_last by fastforce
  then show ?thesis by (simp add: last_split_suffix)
next
  case False
  then show ?thesis by (simp add: split_no_sep)
qed

lemma dash_not_digit: "\<not> is_digit CHR ''-''"
  by (simp add: is_digit_def)

lemma sequence_of_format:
  "0 \<le> n \<Longrightarrow> sequence_of (format_ticket_number y n) = Inr n"
proof -
  assume n: "0 \<le> n"
  have "CHR ''-'' \<notin> set (format_04d n)"
    using format_04d_digits[OF n] dash_not_digit by blast
  then have "last (split CHR ''-'' ((''TCK-'' @ str_nat y) @ CHR ''-'' # format_04d n)) = format_04d n"
    by (rule last_split_suffix)
  then show ?thesis using n by (simp add: sequence_of_def format_ticket_number_def py_int_format_04d)
qed


text \<open>A string without a minus sign is never read as a negative number.\<close>

lemma set_strip: "set (strip s) \<subseteq> set s"
proof -
  have "set (dropWhile is_space (rev (dropWhile is_space s))) \<subseteq> set (rev (dropWhile is_space s))"
    by (rule set_dropWhileD[THEN subsetI]) 
  also have "\<dots> \<subseteq> set s" using set_dropWhileD by fastforce
  finally show ?thesis by (simp add: strip_def)
qed

lemma py_int_nonneg: "CHR ''-'' \<notin> set s \<Longrightarrow> py_int s = Inr v \<Longrightarrow> 0 \<le> v"
proof -
  assume a: "CHR ''-'' \<notin> set s" and b: "py_int s = Inr v"
  have "CHR ''-'' \<notin> set (strip s)" using a set_strip by blast
  then show ?thesis using b
    by (auto simp: py_int_def split: list.splits if_splits option.splits)
qed

lemma sequence_of_nonneg: "sequence_of s = Inr v \<Longrightarrow> 0 \<le> v"
  unfolding sequence_of_def using py_int_nonneg last_split_no_sep by blast

subsection \<open>Prefixes of ticket numbers\<close>

lemma startswith_format: "startswith (format_ticket_number y n) (ticket_prefix y)"
  by (simp add: startswith_def format_ticket_number_def ticket_prefix_def)

lemma prefix_before_sep:
  "prefix p (a @ c # r) \<Longrightarrow> c \<notin> set p \<Longrightarrow> prefix p a"
  by (auto simp: prefix_append prefix_Cons)

lemma prefix_str_nat_le: "prefix (str_nat m) (str_nat n) \<Longrightarrow> m \<le> n"
proof -
  assume "prefix (str_nat m) (str_nat n)"
  then obtain zs where z: "str_nat n = str_nat m @ zs" by (auto simp: prefix_def)
  have "n = dec_value 0 (str_nat m @ zs)" using dec_value_str_nat0[of n] z by simp
  also have "\<dots> = dec_value m zs" by (simp add: dec_value_append dec_value_str_nat0)
  finally have n: "n = dec_value m zs" .
  have "a \<le> dec_value a zs" for a
  proof (induction zs arbitrary: a)
    case Nil
    then show ?case by (simp add: dec_value_def)
  next
    case (Cons z zs)
    have "a \<le> 10 * a + digit_val z" by simp
    also have "\<dots> \<le> dec_value (10 * a + digit_val z) zs" by (rule Cons.IH)
    finally show ?case by (simp add: dec_value_def)
  qed
  then show ?thesis using n by metis
qed

lemma startswith_other_year:
  "startswith (format_ticket_number y n) (ticket_prefix y') \<Longrightarrow> y' \<le> y"
proof -
  assume "startswith (format_ticket_number y n) (ticket_prefix y')"
  then have "prefix (str_nat y') (str_nat y @ CHR ''-'' # format_04d n)"
    by (simp add: startswith_def format_ticket_number_def ticket_prefix_def)
  moreover have "CHR ''-'' \<notin> set (str_nat y')" using str_nat_digits dash_not_digit by blast
  ultimately have "prefix (str_nat y') (str_nat y)" by (rule prefix_before_sep)
  then show ?thesis by (rule prefix_str_nat_le)
qed

lemma format_ticket_number_year:
  "format_ticket_number y m = format_ticket_number y' n \<Longrightarrow> y = y'"
proof -
  assume e: "format_ticket_number y m = format_ticket_number y' n"
  have "startswith (format_ticket_number y m) (ticket_prefix y')"
    using e startswith_format by simp
  moreover have "startswith (format_ticket_number y' n) (ticket_prefix y)"
    using e startswith_format by metis
  ultimately show ?thesis using startswith_other_year by (meson le_antisym)
qed

section \<open>Query sets and the number generator\<close>




lemma mset_order_by_desc: "mset (order_by_desc key rows) = mset rows"
  by (simp add: order_by_desc_def)

lemma sorted_order_by_desc:
  "sorted_wrt (\<lambda>a b. key b \<le> key a) (order_by_desc key rows)"
proof -
  have "sorted (map key (sort_key key rows))" by (rule sorted_sort_key)
  then have "sorted_wrt (\<lambda>a b. key a \<le> key b) (sort_key key rows)"
    by (simp add: sorted_map)
  then show ?thesis by (simp add: order_by_desc_def sorted_wrt_rev)
qed



lemma generate_none:
  assumes "\<forall>t \<in> set rows. \<not> startswith (ticket_number t) (ticket_prefix (year now))"
  shows "generate_ticket_number rows now = Inr (format_ticket_number (year now) 1)"
proof -
  have "filter (\<lambda>t. startswith (ticket_number t) (ticket_prefix (year now))) rows = []"
    using assms by (simp add: filter_empty_conv)
  then show ?thesis
    by (simp add: generate_ticket_number_def order_by_desc_def first_def)
qed


lemma generate_form:
  assumes "generate_ticket_number rows now = Inr r"
  shows "\<exists>n. 1 \<le> n \<and> r = format_ticket_number (year now) n"
proof -
  let ?m = "filter (\<lambda>t. startswith (ticket_number t) (ticket_prefix (year now))) rows"
  show ?thesis
  proof (cases "first (order_by_desc (\<lambda>t. micros (Ticket.created_at t)) ?m)")
    case None
    then show ?thesis using assms by (auto simp: generate_ticket_number_def)
  next
    case (Some t)
    then obtain k where k: "sequence_of (ticket_number t) = Inr k" "r = format_ticket_number (year now) (k + 1)"
      using assms by (auto simp: generate_ticket_number_def split: sum.splits)
    have "0 \<le> k" using k(1) by (rule sequence_of_nonneg)
    then show ?thesis using k(2) by (intro exI[of _ "k + 1"]) simp
  qed
qed

section \<open>Access codes\<close>

lemma choices_total:
  "seq \<noteq> [] \<Longrightarrow> \<exists>cs g'. choices k seq g = Inr (cs, g') \<and> length cs = k \<and> set cs \<subseteq> set seq"
proof (induction k arbitrary: g)
  case 0
  then show ?case by simp
next
  case (Suc k)
  obtain i g1 where r: "randbelow (length seq) g = (i, g1)" by (cases "randbelow (length seq) g")
  have i: "i < length seq" using r Suc.prems by (auto simp: randbelow_def)
  from Suc.IH[OF Suc.prems, of g1] obtain cs g2 where
    c: "choices k seq g1 = Inr (cs, g2)" "length cs = k" "set cs \<subseteq> set seq" by blast
  show ?case using Suc.prems r i c by (simp add: secrets_choice_def)
qed

lemma alphabet_chars: "c \<in> set (ascii_uppercase @ digits) \<Longrightarrow> is_ascii_upper c \<or> is_digit c"
  by (auto simp: ascii_uppercase_def digits_def is_ascii_upper_def is_digit_def)

section \<open>Evaluating the examples\<close>

lemma digit_char_eval:
  "digit_char 0 = CHR ''0''" "digit_char 1 = CHR ''1''" "digit_char 2 = CHR ''2''"
  "digit_char 3 = CHR ''3''" "digit_char 4 = CHR ''4''" "digit_char 5 = CHR ''5''"
  "digit_char 6 = CHR ''6''" "digit_char 7 = CHR ''7''" "digit_char 8 = CHR ''8''"
  "digit_char 9 = CHR ''9''" "digit_char (Suc 0) = CHR ''1''"
  by code_simp+

lemma str_nat_eval:
  "str_nat 2025 = ''2025''" "str_nat 2024 = ''2024''" "str_nat 2026 = ''2026''"
  by (simp_all add: str_nat.simps digit_char_eval)

lemma replicate_eval:
  "replicate 1 c = [c]" "replicate 2 c = [c, c]" "replicate 3 c = [c, c, c]"
  by (simp_all add: eval_nat_numeral)

lemma format_04d_eval:
  "format_04d 1 = ''0001''" "format_04d 2 = ''0002''" "format_04d 3 = ''0003''"
  "format_04d 6 = ''0006''" "format_04d 10000 = ''10000''"
  by (simp_all add: format_04d_def zfill_def str_nat.simps digit_char_eval replicate_eval)

lemmas example_rows = rows_2024_def rows_out_of_order_def march_4th_def ticket_row_def

lemmas py_int_eval =
  py_int_def strip_def is_space_def is_digit_def parse_unsigned_def digit_val_def

lemmas number_eval =
  generate_ticket_number_def startswith_def ticket_prefix_def order_by_desc_def first_def
  sequence_of_def format_ticket_number_def str_nat_eval format_04d_eval

section \<open>The claims\<close>

text \<open>
  C5. Every call of \<open>generate_access_code\<close> returns a string of exactly 12 characters,
  each an upper-case ASCII letter or a decimal digit, whatever the random source yields.
\<close>

theorem generate_access_code_spec:
  "\<exists>code g'. generate_access_code g = Inr (code, g') \<and> length code = 12
      \<and> (\<forall>c \<in> set code. is_ascii_upper c \<or> is_digit c)"
proof -
  have "ascii_uppercase @ digits \<noteq> []" by (simp add: digits_def)
  from choices_total[OF this, of 12 g] show ?thesis
    unfolding generate_access_code_def using alphabet_chars by blast
qed

lemma twelve: "(12::nat) = Suc (Suc (Suc (Suc (Suc (Suc (Suc (Suc (Suc (Suc (Suc (Suc 0)))))))))))"
  by simp

lemma alphabet_eval: "ascii_uppercase @ digits = ''ABCDEFGHIJKLMNOPQRSTUVWXYZ0123456789''"
  by (simp add: ascii_uppercase_def digits_def)

lemma generate_access_code_entropy:
  "fst (projr (generate_access_code entropy)) = ''DKRY5CJQX4BI''"
  unfolding generate_access_code_def alphabet_eval twelve
  by (simp add: entropy_def secrets_choice_def randbelow_def)

theorem generate_access_code_spec_witness:
  "\<exists>g'. generate_access_code entropy = Inr (''DKRY5CJQX4BI'', g')
         \<and> length ''DKRY5CJQX4BI'' = 12
         \<and> (\<forall>c \<in> set ''DKRY5CJQX4BI''. is_ascii_upper c \<or> is_digit c)"
proof -
  obtain code g' where r: "generate_access_code entropy = Inr (code, g')"
    and p: "length code = 12" "\<forall>c \<in> set code. is_ascii_upper c \<or> is_digit c"
    using generate_access_code_spec[of entropy] by blast
  have "code = ''DKRY5CJQX4BI''" using generate_access_code_entropy r by simp
  then show ?thesis using r p by simp
qed

text \<open>
  C10. \<open>get_short_description\<close> returns the description unchanged when it has at most 50
  characters, and otherwise its first 50 characters followed by three dots; the result
  never has more than 53 characters.
\<close>

theorem get_short_description_spec:
  "(length (description t) \<le> 50 \<longrightarrow> get_short_description t = description t)
   \<and> (50 < length (description t)
        \<longrightarrow> get_short_description t = take 50 (description t) @ ''...'')
   \<and> length (get_short_description t) \<le> 53"
  by (simp add: get_short_description_def)

theorem get_short_description_spec_witness:
  "50 < length (description long_report)
   \<and> get_short_description long_report
       = ''La impresora del laboratorio 3 no responde desde e...''
   \<and> length (get_short_description long_report) \<le> 53"
  using get_short_description_spec[of long_report] by (simp add: long_report_def ticket_row_def)




lemma length_str_nat_le: "n < 10 ^ k \<Longrightarrow> 1 \<le> k \<Longrightarrow> length (str_nat n) \<le> k"
proof (induction n arbitrary: k rule: str_nat.induct)
  case (1 n)
  show ?case
  proof (cases "n < 10")
    case True
    then show ?thesis using "1.prems" by (simp add: str_nat.simps[of n])
  next
    case False
    then have k2: "2 \<le> k" using "1.prems" 
      by (cases k; cases "k - 1") auto
    then obtain j where j: "k = Suc j" "1 \<le> j" by (cases k) auto
    have "n div 10 < 10 ^ j" using "1.prems"(1) j by (simp add: less_mult_imp_div_less)
    then have "length (str_nat (n div 10)) \<le> j" using "1.IH"[OF False _ j(2)] by simp
    then show ?thesis using False j by (simp add: str_nat.simps[of n])
  qed
qed

lemma str_nat_less: "n < 10 ^ length (str_nat n)"
  using dec_value_str_nat[of 0 n]
proof (induction n rule: str_nat.induct)
  case (1 n)
  show ?case
  proof (cases "n < 10")
    case True
    then show ?thesis by (simp add: str_nat.simps[of n])
  next
    case False
    have "n div 10 < 10 ^ length (str_nat (n div 10))"
      using "1.IH"[OF False] by (simp add: dec_value_str_nat)
    then have "n < 10 * 10 ^ length (str_nat (n div 10))" by linarith
    then show ?thesis using False by (simp add: str_nat.simps[of n])
  qed
qed

lemma length_format_04d_small: "0 \<le> n \<Longrightarrow> n \<le> 9999 \<Longrightarrow> length (format_04d n) = 4"
proof -
  assume n: "0 \<le> n" "n \<le> 9999"
  have "nat n < 10 ^ 4" using n by simp
  then have "length (str_nat (nat n)) \<le> 4" by (rule length_str_nat_le) simp
  then show ?thesis using n by (simp add: format_04d_nonneg zfill_def)
qed

lemma format_04d_large:
  "9999 < n \<Longrightarrow> format_04d n = str_nat (nat n) \<and> 4 < length (format_04d n)"
proof -
  assume n: "9999 < n"
  have "10 ^ 4 \<le> nat n" using n by simp
  moreover have "nat n < 10 ^ length (str_nat (nat n))" by (rule str_nat_less)
  ultimately have "(10::nat) ^ 4 < 10 ^ length (str_nat (nat n))" by linarith
  then have "4 < length (str_nat (nat n))" by (simp only: power_strict_increasing_iff) 
  then show ?thesis using n by (simp add: format_04d_nonneg zfill_def)
qed

text \<open>
  C3. Every number the generator returns is \<^verbatim>\<open>TCK-\<close>, the year, a dash and the sequence
  number in decimal, filled with zeros to four digits: the sequence part has digits only,
  reads back as the sequence number, has exactly four characters up to 9999, and beyond
  9999 is the whole number, longer than four characters.
\<close>

theorem generate_ticket_number_format:
  "generate_ticket_number rows now = Inr r \<Longrightarrow>
     \<exists>n. 1 \<le> n
        \<and> r = ''TCK-'' @ str_nat (year now) @ ''-'' @ format_04d n
        \<and> (\<exists>k. format_04d n = replicate k CHR ''0'' @ str_nat (nat n))
        \<and> (\<forall>c \<in> set (format_04d n). is_digit c)
        \<and> sequence_of r = Inr n
        \<and> (n \<le> 9999 \<longrightarrow> length (format_04d n) = 4)
        \<and> (9999 < n \<longrightarrow> format_04d n = str_nat (nat n) \<and> 4 < length (format_04d n))"
proof -
  assume "generate_ticket_number rows now = Inr r"
  then obtain n where n: "1 \<le> n" "r = format_ticket_number (year now) n"
    using generate_form by blast
  have z: "0 \<le> n" using n(1) by simp
  have "\<exists>k. format_04d n = replicate k CHR ''0'' @ str_nat (nat n)"
    using z by (auto simp: format_04d_nonneg zfill_def)
  moreover have "\<forall>c \<in> set (format_04d n). is_digit c" using format_04d_digits[OF z] by blast
  moreover have "sequence_of r = Inr n" using n(2) sequence_of_format[OF z] by simp
  moreover have "n \<le> 9999 \<longrightarrow> length (format_04d n) = 4" using length_format_04d_small[OF z] by blast
  moreover have "9999 < n \<longrightarrow> format_04d n = str_nat (nat n) \<and> 4 < length (format_04d n)"
    using format_04d_large by blast
  moreover have "r = ''TCK-'' @ str_nat (year now) @ ''-'' @ format_04d n"
    using n(2) by (simp add: format_ticket_number_def)
  ultimately show ?thesis using n(1) by blast
qed

theorem generate_ticket_number_format_witness:
  "generate_ticket_number rows_9999 march_4th = Inr ''TCK-2025-10000''
   \<and> sequence_of ''TCK-2025-10000'' = Inr 10000
   \<and> format_04d 10000 = str_nat (nat 10000)
   \<and> 4 < length (format_04d 10000)"
proof -
  have g: "generate_ticket_number rows_9999 march_4th = Inr ''TCK-2025-10000''"
    by (simp add: rows_9999_def number_eval py_int_eval example_rows)
  have q: "sequence_of ''TCK-2025-10000'' = Inr 10000"
    by (simp add: sequence_of_def py_int_eval)
  obtain n where n: "sequence_of ''TCK-2025-10000'' = Inr n"
    "9999 < n \<longrightarrow> format_04d n = str_nat (nat n) \<and> 4 < length (format_04d n)"
    using generate_ticket_number_format[OF g] by blast
  have e: "n = 10000" using n(1) q by simp
  have big: "(9999::int) < 10000" by simp
  have "format_04d 10000 = str_nat (nat 10000) \<and> 4 < length (format_04d 10000)"
    using n(2) big unfolding e by (rule mp)
  then show ?thesis using g q by blast
qed

text \<open>
  C4. When every stored ticket carries a number of an earlier year, the first number
  generated in year \<open>Y + 1\<close> has sequence 1; and whatever the store holds, a number
  generated in year \<open>Y + 1\<close> differs from every number of year \<open>Y\<close>.
\<close>

theorem generate_ticket_number_new_year:
  "year now = Suc Y \<Longrightarrow>
     ((\<forall>t \<in> set rows. \<exists>y n. y \<le> Y \<and> ticket_number t = format_ticket_number y n)
        \<longrightarrow> generate_ticket_number rows now = Inr (''TCK-'' @ str_nat (Suc Y) @ ''-0001''))
     \<and> (\<forall>r n. generate_ticket_number rows now = Inr r \<longrightarrow> r \<noteq> format_ticket_number Y n)"
proof -
  assume y: "year now = Suc Y"
  have one: "format_ticket_number (Suc Y) 1 = ''TCK-'' @ str_nat (Suc Y) @ ''-0001''"
    by (simp add: format_ticket_number_def format_04d_eval)
  have a: "generate_ticket_number rows now = Inr (''TCK-'' @ str_nat (Suc Y) @ ''-0001'')"
    if h: "\<forall>t \<in> set rows. \<exists>y n. y \<le> Y \<and> ticket_number t = format_ticket_number y n"
  proof -
    have "\<not> startswith (ticket_number t) (ticket_prefix (year now))" if mem: "t \<in> set rows" for t
    proof
      assume s: "startswith (ticket_number t) (ticket_prefix (year now))"
      obtain y' n where le: "y' \<le> Y" and tn: "ticket_number t = format_ticket_number y' n"
        using h mem by blast
      have "startswith (format_ticket_number y' n) (ticket_prefix (Suc Y))"
        using s tn y by simp
      then have "Suc Y \<le> y'" by (rule startswith_other_year)
      then show False using le by linarith
    qed
    then have "generate_ticket_number rows now = Inr (format_ticket_number (year now) 1)"
      by (intro generate_none) blast
    then show ?thesis using y one by simp
  qed
  have b: "r \<noteq> format_ticket_number Y n" if g: "generate_ticket_number rows now = Inr r" for r n
  proof
    assume e: "r = format_ticket_number Y n"
    obtain m where m: "r = format_ticket_number (year now) m"
      using generate_form[OF g] by blast
    have "format_ticket_number (year now) m = format_ticket_number Y n"
      using e m by simp
    then have "year now = Y" by (rule format_ticket_number_year)
    then show False using y by linarith
  qed
  show ?thesis using a b by blast
qed

theorem generate_ticket_number_new_year_witness:
  "year march_4th = Suc 2024
   \<and> generate_ticket_number rows_2024 march_4th = Inr ''TCK-2025-0001''
   \<and> ''TCK-2025-0001'' \<noteq> format_ticket_number 2024 1"
proof -
  have y: "year march_4th = Suc 2024" by (simp add: march_4th_def)
  have h: "\<forall>t \<in> set rows_2024. \<exists>y n. y \<le> 2024 \<and> ticket_number t = format_ticket_number y n"
  proof -
    have "ticket_number (rows_2024 ! 0) = format_ticket_number 2024 1"
      "ticket_number (rows_2024 ! 1) = format_ticket_number 2024 2"
      by (simp_all add: example_rows format_ticket_number_def str_nat_eval format_04d_eval)
    then have "\<exists>y n. y \<le> 2024 \<and> ticket_number (rows_2024 ! 0) = format_ticket_number y n"
      "\<exists>y n. y \<le> 2024 \<and> ticket_number (rows_2024 ! 1) = format_ticket_number y n"
      by (metis order_refl)+
    then show ?thesis by (simp add: rows_2024_def)
  qed
  have s: "str_nat (Suc 2024) = ''2025''" using str_nat_eval(1) by simp
  show ?thesis using generate_ticket_number_new_year[OF y, of rows_2024] h y s by simp
qed

text \<open>
  C9. The default listings return the tickets with the newest \<open>created_at\<close> first, the
  history rows with the newest \<open>timestamp\<close> first and the notifications with the newest
  \<open>created_at\<close> first; each listing holds exactly the rows of its table.
\<close>

theorem default_ordering_newest_first:
  "sorted_wrt (\<lambda>a b. micros (Ticket.created_at b) \<le> micros (Ticket.created_at a))
     (Ticket_objects_all s)
   \<and> mset (Ticket_objects_all s) = mset (tickets s)
   \<and> sorted_wrt (\<lambda>a b. micros (timestamp b) \<le> micros (timestamp a))
       (TicketHistory_objects_all s)
   \<and> mset (TicketHistory_objects_all s) = mset (history s)
   \<and> sorted_wrt (\<lambda>a b. micros (Notification.created_at b) \<le> micros (Notification.created_at a))
       (Notification_objects_all s)
   \<and> mset (Notification_objects_all s) = mset (notifications s)"
  unfolding Ticket_objects_all_def TicketHistory_objects_all_def Notification_objects_all_def
  by (intro conjI sorted_order_by_desc mset_order_by_desc)

text \<open>
  C7, as stated, fails: deleting a user deletes history rows. Ana owns ticket 10, which
  has two history rows, one of them written by the technician; deleting Ana deletes the
  ticket and, through the \<^verbatim>\<open>CASCADE\<close> of \<^verbatim>\<open>TicketHistory.ticket\<close>, both rows.
\<close>

theorem delete_user_counterexample:
  "length (history helpdesk) = 2
   \<and> tickets (delete_user 1 helpdesk) = []
   \<and> history (delete_user 1 helpdesk) = []"
  by (simp add: delete_user_def owned_tickets_def helpdesk_def new_ticket_def ticket_row_def)

text \<open>
  C7, amended. Deleting a user deletes every ticket the user owns and leaves the other
  tickets as they are. The history rows of the deleted tickets are deleted with them.
  Every history row of a remaining ticket survives, unchanged except that its acting
  user is set to null when that was the deleted user; no surviving row refers to the
  deleted user, and no row is deleted because of its acting user alone.
\<close>

theorem delete_user_cascade:
  "(\<forall>t \<in> set (tickets (delete_user uid s)). Ticket.user t \<noteq> uid)
   \<and> (\<forall>t \<in> set (tickets s). Ticket.user t \<noteq> uid \<longrightarrow> t \<in> set (tickets (delete_user uid s)))
   \<and> (\<forall>h \<in> set (history s).
          TicketHistory.ticket h \<notin> set (owned_tickets uid s) \<longrightarrow>
            (if TicketHistory.user h = Some uid then h\<lparr>TicketHistory.user := None\<rparr> else h)
              \<in> set (history (delete_user uid s)))
   \<and> (\<forall>h' \<in> set (history (delete_user uid s)).
          TicketHistory.user h' \<noteq> Some uid
          \<and> TicketHistory.ticket h' \<notin> set (owned_tickets uid s)
          \<and> (\<exists>h \<in> set (history s).
                h' = (if TicketHistory.user h = Some uid then h\<lparr>TicketHistory.user := None\<rparr> else h)))
   \<and> length (history (delete_user uid s))
       = length (filter (\<lambda>h. TicketHistory.ticket h \<notin> set (owned_tickets uid s)) (history s))"
  by (auto simp: delete_user_def set_null_def Let_def)

theorem delete_user_cascade_witness:
  "TicketHistory.ticket (history helpdesk ! 1) \<notin> set (owned_tickets 2 helpdesk)
   \<and> TicketHistory.user (history helpdesk ! 1) = Some 2
   \<and> (history helpdesk ! 1)\<lparr>TicketHistory.user := None\<rparr> \<in> set (history (delete_user 2 helpdesk))
   \<and> length (history (delete_user 2 helpdesk)) = 2"
proof -
  have m: "history helpdesk ! 1 \<in> set (history helpdesk)" by (simp add: helpdesk_def)
  have a: "TicketHistory.ticket (history helpdesk ! 1) \<notin> set (owned_tickets 2 helpdesk)"
    by (simp add: owned_tickets_def helpdesk_def new_ticket_def ticket_row_def)
  have b: "TicketHistory.user (history helpdesk ! 1) = Some 2" by (simp add: helpdesk_def)
  have c: "length (filter (\<lambda>h. TicketHistory.ticket h \<notin> set (owned_tickets 2 helpdesk)) (history helpdesk)) = 2"
    by (simp add: owned_tickets_def helpdesk_def new_ticket_def ticket_row_def)
  show ?thesis using delete_user_cascade[of 2 helpdesk] m a b c by auto
qed

text \<open>
  C8, as stated, fails on the transition table of the specification: rejecting a ticket
  sets \<open>closed_at\<close> and leaves the status \<^verbatim>\<open>RECHAZADO\<close>, which is neither closed nor
  archived.
\<close>

theorem closed_at_counterexample:
  "transition march_4th beto (Reject ''Equipo fuera de inventario'') new_ticket
     = Inr (rejected_ticket, REJECTED, True)
   \<and> reachable new_ticket \<and> reachable rejected_ticket
   \<and> closed_at rejected_ticket = Some march_4th
   \<and> status rejected_ticket = RECHAZADO"
proof -
  have t: "transition march_4th beto (Reject ''Equipo fuera de inventario'') new_ticket
             = Inr (rejected_ticket, REJECTED, True)"
    by (simp add: transition_def rejected_ticket_def new_ticket_def ticket_row_def)
  have n: "reachable new_ticket"
    by (rule reachable.created) (simp_all add: new_ticket_def ticket_row_def)
  have r: "reachable rejected_ticket" using n t by (rule reachable.moved)
  show ?thesis using t n r by (simp add: rejected_ticket_def)
qed

text \<open>
  C8, amended. In every reachable ticket state \<open>closed_at\<close> is set if and only if the
  status is rejected, closed or archived; the states reached by any sequence of
  successful transitions are reachable, so this holds after every operation.
\<close>

theorem closed_at_invariant:
  "reachable t \<Longrightarrow>
     (closed_at t \<noteq> None) = (status t = RECHAZADO \<or> status t = CERRADO \<or> status t = ARCHIVADO)"
proof (induction rule: reachable.induct)
  case (created t)
  then show ?case by simp
next
  case (moved t now actor ev t' a n)
  show ?case
  proof (cases ev)
    case StartWork
    then show ?thesis using moved by (auto simp: transition_def split: if_splits)
  next
    case (ScheduleVisit d tm)
    then show ?thesis using moved by (auto simp: transition_def split: if_splits)
  next
    case (Reject reason)
    then show ?thesis using moved by (auto simp: transition_def split: if_splits)
  next
    case (Close closing)
    then show ?thesis using moved by (auto simp: transition_def split: if_splits)
  next
    case (AddNote remark)
    then show ?thesis using moved by (auto simp: transition_def split: if_splits)
  next
    case Archive
    then show ?thesis using moved
      by (auto simp: transition_def split: if_splits option.splits)
  qed
qed

theorem closed_at_invariant_witness:
  "reachable rejected_ticket
   \<and> (closed_at rejected_ticket \<noteq> None)
       = (status rejected_ticket = RECHAZADO \<or> status rejected_ticket = CERRADO
          \<or> status rejected_ticket = ARCHIVADO)"
proof -
  have t: "transition march_4th beto (Reject ''Equipo fuera de inventario'') new_ticket
             = Inr (rejected_ticket, REJECTED, True)"
    by (simp add: transition_def rejected_ticket_def new_ticket_def ticket_row_def)
  have n: "reachable new_ticket"
    by (rule reachable.created) (simp_all add: new_ticket_def ticket_row_def)
  have r: "reachable rejected_ticket" using n t by (rule reachable.moved)
  show ?thesis using closed_at_invariant[OF r] r by blast
qed

lemma generate_access_code_total:
  "\<exists>code g'. generate_access_code g = Inr (code, g')"
proof -
  have "ascii_uppercase @ digits \<noteq> []" by (simp add: digits_def)
  from choices_total[OF this, of 12 g] show ?thesis
    unfolding generate_access_code_def by blast
qed

lemma generate_access_code_entropy_Inr:
  "\<exists>g'. generate_access_code entropy = Inr (''DKRY5CJQX4BI'', g')"
proof -
  obtain code g' where r: "generate_access_code entropy = Inr (code, g')"
    using generate_access_code_total by blast
  have "code = ''DKRY5CJQX4BI''" using generate_access_code_entropy r by simp
  then show ?thesis using r by blast
qed

lemma save_user_conflict:
  "\<exists>r \<in> set rows. CustomUser.pk r \<noteq> CustomUser.pk self
      \<and> (access_code r = access_code self \<or> institutional_email r = institutional_email self
           \<or> username r = username self)
   \<Longrightarrow> save_user self rows = Inl IntegrityError"
  by (auto simp: save_user_def list_ex_iff)

lemma save_user_ok:
  assumes "\<not> (\<exists>r \<in> set rows. CustomUser.pk r \<noteq> CustomUser.pk self
      \<and> (access_code r = access_code self \<or> institutional_email r = institutional_email self
           \<or> username r = username self))"
  shows "\<exists>self' rows'. save_user self rows = Inr (self', rows') \<and> self' \<in> set rows'
           \<and> access_code self' = access_code self
           \<and> code_sent_count self' = code_sent_count self
           \<and> is_code_active self' = is_code_active self"
proof (cases "CustomUser.pk self")
  case None
  then show ?thesis using assms by (auto simp: save_user_def list_ex_iff Let_def)
next
  case (Some k)
  show ?thesis
  proof (cases "\<exists>r \<in> set rows. CustomUser.pk r = Some k")
    case True
    then have "self \<in> set (map (\<lambda>r. if CustomUser.pk r = Some k then self else r) rows)"
      by (auto simp: image_iff)
    then show ?thesis using assms Some True by (auto simp: save_user_def list_ex_iff)
  next
    case False
    then show ?thesis using assms Some by (auto simp: save_user_def list_ex_iff)
  qed
qed

text \<open>
  What the method does when the write is accepted: with no other stored user holding
  the fresh code, the object's e-mail address or its user name, the object is saved with
  \<open>code_sent_count\<close> 0, \<open>is_code_active\<close> true and the fresh code, and that code is
  returned.
\<close>

lemma regenerate_code_saved:
  assumes g: "generate_access_code g = Inr (code, g')"
    and free: "\<not> (\<exists>r \<in> set rows. CustomUser.pk r \<noteq> CustomUser.pk self
                  \<and> (access_code r = code
                       \<or> institutional_email r = institutional_email self
                       \<or> username r = username self))"
  shows "\<exists>self' rows'. regenerate_code self rows g = (Inr code, self', rows', g')
           \<and> self' \<in> set rows' \<and> access_code self' = code
           \<and> code_sent_count self' = 0 \<and> is_code_active self'"
proof -
  let ?u = "self\<lparr>access_code := code, code_sent_count := 0, is_code_active := True\<rparr>"
  have r: "regenerate_code self rows g =
             (case save_user ?u rows of
                Inl e \<Rightarrow> (Inl e, ?u, rows, g')
              | Inr (self4, rows') \<Rightarrow> (Inr (access_code self4), self4, rows', g'))"
    by (simp add: regenerate_code_def g Let_def)
  have "\<not> (\<exists>r \<in> set rows. CustomUser.pk r \<noteq> CustomUser.pk ?u
      \<and> (access_code r = access_code ?u \<or> institutional_email r = institutional_email ?u
           \<or> username r = username ?u))"
    using free by simp
  from save_user_ok[OF this] obtain self' rows' where
    s: "save_user ?u rows = Inr (self', rows')" "self' \<in> set rows'"
       "access_code self' = code" "code_sent_count self' = 0" "is_code_active self'"
    by auto
  show ?thesis using r s by simp
qed

text \<open>
  C6. The claim: for every user, after \<open>regenerate_code\<close> the user has
  \<open>code_sent_count\<close> 0, \<open>is_code_active\<close> true and a freshly generated \<open>access_code\<close>,
  and the method returns that code. The code misses it where the generator repeats a
  stored code: \<open>generate_access_code\<close>, whose docstring promises a unique code, draws
  without looking at the stored codes, and \<open>regenerate_code\<close> saves without a retry.
  Here the random source yields \<^verbatim>\<open>DKRY5CJQX4BI\<close>, which Beto holds, while Ana
  regenerates her code: \<^verbatim>\<open>save()\<close> raises \<^verbatim>\<open>IntegrityError\<close>, no value is returned, and
  the stored users, Ana's old code and counters among them, are as before.
\<close>

theorem regenerate_code_duplicate_raises:
  "access_code beto = ''DKRY5CJQX4BI''
   \<and> fst (regenerate_code ana [ana, beto] entropy) = Inl IntegrityError
   \<and> fst (snd (snd (regenerate_code ana [ana, beto] entropy))) = [ana, beto]
   \<and> code_sent_count ana = 2 \<and> \<not> is_code_active ana"
proof -
  obtain g' where g: "generate_access_code entropy = Inr (''DKRY5CJQX4BI'', g')"
    using generate_access_code_entropy_Inr by blast
  show ?thesis
    by (simp add: regenerate_code_def g save_user_def ana_def beto_def Let_def)
qed














end
